theory Spec2Isabelle
  imports Main "HOL-Library.Multiset"
begin

section \<open>Common vocabulary of the scripts\<close>

text \<open>
  Every script of the repository is a controlling routine (the main thread) that starts a
  fixed number of workers, lets them run, joins them and prints a summary.  A script is
  modelled as a transition system: each actor (the main thread or worker number \<open>i\<close>) has a
  program counter naming the source line it is about to execute, and one transition is one
  atomic action of one actor.  The scheduler is the choice of the actor that moves next;
  a property that holds "for any interleaving" is an invariant of all reachable states.
\<close>

datatype actor = Principal | Trabajador nat

text \<open>The exceptions the scripts can raise.\<close>

datatype excepcion = EOFError | RuntimeError | KeyError string | TypeError | ValueError

text \<open>
  A \<open>threading.Lock\<close> is its holder: \<open>None\<close> when free, \<open>Some i\<close> when worker \<open>i\<close> has
  acquired it.  \<open>acquire\<close> is enabled only on a free lock (the caller blocks otherwise).
\<close>

type_synonym candado = "nat option"

text \<open>UTF-8 bytes of the non-ASCII characters used in the scripts' string constants.\<close>

definition emoji_persona :: string where
  "emoji_persona = [CHR 0xF0, CHR 0x9F, CHR 0xA7, CHR 0x8D]"

definition i_acute :: string where
  "i_acute = [CHR 0xC3, CHR 0xAD]"

definition n_tilde :: string where
  "n_tilde = [CHR 0xC3, CHR 0xB1]"

section \<open>Corredores.py: the runners' race\<close>

definition CORREDORES :: "string list" where
  "CORREDORES =
     [emoji_persona @ '' Ana'', emoji_persona @ '' Luis'', emoji_persona @ '' Marta'',
      emoji_persona @ '' Carlos'', emoji_persona @ '' Sof'' @ i_acute @ ''a'']"

definition DISTANCIA :: nat where
  "DISTANCIA = 10"

text \<open>Lines written to the console by \<open>correr\<close> and \<open>main\<close>.\<close>

datatype c_linea =
    L_encabezado
  | L_fuera
  | L_paso string nat
  | L_llego string nat
  | L_resultado nat string
  | L_tiempo

text \<open>
  Sequence points of \<open>correr(nombre)\<close>: the thread object exists but was not started;
  \<open>k\<close> iterations of the \<open>for paso\<close> loop are done; then, inside \<open>with lock\<close>, the three
  statements of the critical section (carrying the local \<open>posicion\<close> once computed) and the
  release at the end of the block.
\<close>

datatype correr_pc =
    C_creado
  | C_bucle nat
  | C_posicion
  | C_append nat
  | C_print nat
  | C_release
  | C_fin

datatype c_main =
    M_inicio
  | M_input
  | M_crear nat
  | M_start nat
  | M_join nat
  | M_resultados
  | M_fin
  | M_error excepcion

record carrera =
  llegadas :: "string list"
  lock :: candado
  hilos :: "(string \<times> correr_pc) list"
  principal :: c_main
  stdin :: "string list"
  salida :: "c_linea list"

text \<open>
  One step of \<open>correr(nombre)\<close> run by thread \<open>i\<close>: the new program counter and the new
  shared state, or \<open>None\<close> when the thread cannot move (not started, blocked on the lock,
  finished).
\<close>

fun correr :: "nat \<Rightarrow> string \<Rightarrow> correr_pc \<Rightarrow> carrera \<Rightarrow> (correr_pc \<times> carrera) option" where
  "correr i nombre C_creado s = None"
| "correr i nombre (C_bucle k) s =
     (if k < DISTANCIA
      then Some (C_bucle (Suc k), s\<lparr>salida := salida s @ [L_paso nombre (Suc k)]\<rparr>)
      else (case lock s of
              None \<Rightarrow> Some (C_posicion, s\<lparr>lock := Some i\<rparr>)
            | Some j \<Rightarrow> None))"
| "correr i nombre C_posicion s = Some (C_append (length (llegadas s) + 1), s)"
| "correr i nombre (C_append posicion) s =
     Some (C_print posicion, s\<lparr>llegadas := llegadas s @ [nombre]\<rparr>)"
| "correr i nombre (C_print posicion) s =
     Some (C_release, s\<lparr>salida := salida s @ [L_llego nombre posicion]\<rparr>)"
| "correr i nombre C_release s = Some (C_fin, s\<lparr>lock := None\<rparr>)"
| "correr i nombre C_fin s = None"

text \<open>
  One step of \<open>main\<close>.  \<open>input()\<close> raises \<open>EOFError\<close> on an exhausted standard input;
  \<open>start()\<close> raises \<open>RuntimeError\<close> on a thread that was already started; \<open>join()\<close> blocks
  until the thread has finished.
\<close>

fun c_main_paso :: "c_main \<Rightarrow> carrera \<Rightarrow> (c_main \<times> carrera) option" where
  "c_main_paso M_inicio s = Some (M_input, s\<lparr>salida := salida s @ [L_encabezado]\<rparr>)"
| "c_main_paso M_input s =
     (case stdin s of
        [] \<Rightarrow> Some (M_error EOFError, s)
      | l # ls \<Rightarrow> Some (M_crear 0, s\<lparr>stdin := ls\<rparr>))"
| "c_main_paso (M_crear k) s =
     (if k < length CORREDORES
      then Some (M_crear (Suc k), s\<lparr>hilos := hilos s @ [(CORREDORES ! k, C_creado)]\<rparr>)
      else Some (M_start 0, s\<lparr>salida := salida s @ [L_fuera]\<rparr>))"
| "c_main_paso (M_start k) s =
     (if k < length (hilos s)
      then (if snd (hilos s ! k) = C_creado
            then Some (M_start (Suc k),
                       s\<lparr>hilos := (hilos s)[k := (fst (hilos s ! k), C_bucle 0)]\<rparr>)
            else Some (M_error RuntimeError, s))
      else Some (M_join 0, s))"
| "c_main_paso (M_join k) s =
     (if k < length (hilos s)
      then (if snd (hilos s ! k) = C_fin then Some (M_join (Suc k), s) else None)
      else Some (M_resultados, s))"
| "c_main_paso M_resultados s =
     Some (M_fin,
           s\<lparr>salida := salida s
                @ map (\<lambda>(i, nombre). L_resultado (Suc i) nombre) (enumerate 0 (llegadas s))
                @ [L_tiempo]\<rparr>)"
| "c_main_paso M_fin s = None"
| "c_main_paso (M_error e) s = None"

definition c_paso :: "actor \<Rightarrow> carrera \<Rightarrow> carrera option" where
  "c_paso a s =
     (case a of
        Principal \<Rightarrow>
          (case c_main_paso (principal s) s of
             None \<Rightarrow> None
           | Some (pc', s') \<Rightarrow> Some (s'\<lparr>principal := pc'\<rparr>))
      | Trabajador i \<Rightarrow>
          (if i < length (hilos s)
           then (case correr i (fst (hilos s ! i)) (snd (hilos s ! i)) s of
                   None \<Rightarrow> None
                 | Some (pc', s') \<Rightarrow>
                     Some (s'\<lparr>hilos := (hilos s')[i := (fst (hilos s ! i), pc')]\<rparr>))
           else None))"

definition c_inicial :: "string list \<Rightarrow> carrera" where
  "c_inicial entrada =
     \<lparr>llegadas = [], lock = None, hilos = [], principal = M_inicio,
      stdin = entrada, salida = []\<rparr>"

inductive c_alcanzable :: "string list \<Rightarrow> carrera \<Rightarrow> bool" for entrada :: "string list" where
  c_inicio: "c_alcanzable entrada (c_inicial entrada)"
| c_avance: "c_alcanzable entrada s \<Longrightarrow> c_paso a s = Some s' \<Longrightarrow> c_alcanzable entrada s'"

text \<open>A schedule is the list of actors in the order in which they move.\<close>

fun c_ejecutar :: "actor list \<Rightarrow> carrera \<Rightarrow> carrera option" where
  "c_ejecutar [] s = Some s"
| "c_ejecutar (a # as) s =
     (case c_paso a s of None \<Rightarrow> None | Some s' \<Rightarrow> c_ejecutar as s')"

text \<open>
  The arrivals announced on the console (\<open>llego en LUGAR #posicion\<close>), in the order in
  which they were printed.
\<close>

fun c_anuncios :: "c_linea list \<Rightarrow> (nat \<times> string) list" where
  "c_anuncios [] = []"
| "c_anuncios (L_llego nombre p # ls) = (p, nombre) # c_anuncios ls"
| "c_anuncios (l # ls) = c_anuncios ls"

text \<open>
  A schedule in which the runners reach the finish line in the order Carlos, Luis,
  Sofia, Ana, Marta, the first three running interleaved.
\<close>

definition c_plan :: "actor list" where
  "c_plan =
     replicate 14 Principal
     @ concat (replicate 10 [Trabajador 3, Trabajador 1, Trabajador 4])
     @ replicate 5 (Trabajador 3) @ replicate 5 (Trabajador 1) @ replicate 5 (Trabajador 4)
     @ replicate 15 (Trabajador 0) @ replicate 15 (Trabajador 2)
     @ replicate 7 Principal"

section \<open>Hospital.py: the doctors wait for the director's signal\<close>

record medico =
  m_nombre :: string
  m_especialidad :: string
  m_emoji :: string

definition emoji_doctora :: string where
  "emoji_doctora =
     [CHR 0xF0, CHR 0x9F, CHR 0x91, CHR 0xA9, CHR 0xE2, CHR 0x80, CHR 0x8D,
      CHR 0xE2, CHR 0x9A, CHR 0x95, CHR 0xEF, CHR 0xB8, CHR 0x8F]"

definition emoji_doctor :: string where
  "emoji_doctor =
     [CHR 0xF0, CHR 0x9F, CHR 0x91, CHR 0xA8, CHR 0xE2, CHR 0x80, CHR 0x8D,
      CHR 0xE2, CHR 0x9A, CHR 0x95, CHR 0xEF, CHR 0xB8, CHR 0x8F]"

definition MEDICOS :: "medico list" where
  "MEDICOS =
     [\<lparr>m_nombre = ''Dra. Garc'' @ i_acute @ ''a'',
       m_especialidad = ''Cardiolog'' @ i_acute @ ''a'', m_emoji = emoji_doctora\<rparr>,
      \<lparr>m_nombre = ''Dr. Ram'' @ i_acute @ ''rez'',
       m_especialidad = ''Pediatr'' @ i_acute @ ''a'', m_emoji = emoji_doctor\<rparr>,
      \<lparr>m_nombre = ''Dra. Torres'',
       m_especialidad = ''Neurolog'' @ i_acute @ ''a'', m_emoji = emoji_doctora\<rparr>,
      \<lparr>m_nombre = ''Dr. Mendoza'',
       m_especialidad = ''Traumatolog'' @ i_acute @ ''a'', m_emoji = emoji_doctor\<rparr>]"

definition PACIENTES_POR_MEDICO :: nat where
  "PACIENTES_POR_MEDICO = 3"

text \<open>
  An entry of \<open>registro\<close> is the string \<open>"{nombre} -> Paciente {i}"\<close>; it is kept as the
  pair of the two values formatted into it.
\<close>

datatype atencion = Atencion string nat

datatype h_linea =
    H_encabezado
  | H_revisando
  | H_abierto
  | H_esperando string
  | H_senal string
  | H_atendio string nat nat
  | H_turno string
  | H_resumen nat bool

text \<open>
  Sequence points of \<open>director()\<close>: not started, the first print (followed by the two
  seconds of sleep), the second print, \<open>apertura_hospital.set()\<close>, finished.
\<close>

datatype director_pc = D_creado | D_revisando | D_abierto | D_set | D_fin

text \<open>
  Sequence points of \<open>atender_pacientes(medico)\<close>: not started, the first print,
  \<open>apertura_hospital.wait()\<close>, the print after the wait, the head of the \<open>for i\<close> loop with
  the value of \<open>i\<close> (the consultation sleeps, then enters \<open>with lock\<close>), the two statements of
  the critical section, the release, finished.
\<close>

datatype atender_pc =
    A_creado
  | A_esperando
  | A_wait
  | A_senal
  | A_consulta nat
  | A_append nat
  | A_print nat
  | A_release nat
  | A_fin

datatype h_main =
    P_inicio
  | P_input
  | P_crear
  | P_start nat
  | P_sleep
  | P_start_director
  | P_join_director
  | P_join nat
  | P_resumen
  | P_fin
  | P_error excepcion

datatype h_actor = H_principal | H_director | H_medico nat

record hospital =
  apertura_hospital :: bool
  lock_h :: candado
  registro :: "atencion list"
  hilos_medicos :: "(medico \<times> atender_pc) list"
  hilo_director :: director_pc
  principal_h :: h_main
  stdin_h :: "string list"
  salida_h :: "h_linea list"

fun director :: "director_pc \<Rightarrow> hospital \<Rightarrow> (director_pc \<times> hospital) option" where
  "director D_creado s = None"
| "director D_revisando s = Some (D_abierto, s\<lparr>salida_h := salida_h s @ [H_revisando]\<rparr>)"
| "director D_abierto s = Some (D_set, s\<lparr>salida_h := salida_h s @ [H_abierto]\<rparr>)"
| "director D_set s = Some (D_fin, s\<lparr>apertura_hospital := True\<rparr>)"
| "director D_fin s = None"

text \<open>
  One step of \<open>atender_pacientes(medico)\<close> run by thread \<open>t\<close>.  \<open>wait()\<close> is enabled only
  when the event is set; entering \<open>with lock\<close> is enabled only when the lock is free.
\<close>

fun atender_pacientes ::
  "nat \<Rightarrow> medico \<Rightarrow> atender_pc \<Rightarrow> hospital \<Rightarrow> (atender_pc \<times> hospital) option" where
  "atender_pacientes t m A_creado s = None"
| "atender_pacientes t m A_esperando s =
     Some (A_wait, s\<lparr>salida_h := salida_h s @ [H_esperando (m_nombre m)]\<rparr>)"
| "atender_pacientes t m A_wait s =
     (if apertura_hospital s then Some (A_senal, s) else None)"
| "atender_pacientes t m A_senal s =
     Some (A_consulta 1, s\<lparr>salida_h := salida_h s @ [H_senal (m_nombre m)]\<rparr>)"
| "atender_pacientes t m (A_consulta i) s =
     (if i < PACIENTES_POR_MEDICO + 1
      then (case lock_h s of
              None \<Rightarrow> Some (A_append i, s\<lparr>lock_h := Some t\<rparr>)
            | Some u \<Rightarrow> None)
      else Some (A_fin, s\<lparr>salida_h := salida_h s @ [H_turno (m_nombre m)]\<rparr>))"
| "atender_pacientes t m (A_append i) s =
     Some (A_print i, s\<lparr>registro := registro s @ [Atencion (m_nombre m) i]\<rparr>)"
| "atender_pacientes t m (A_print i) s =
     Some (A_release i,
           s\<lparr>salida_h := salida_h s @ [H_atendio (m_nombre m) i (length (registro s))]\<rparr>)"
| "atender_pacientes t m (A_release i) s = Some (A_consulta (Suc i), s\<lparr>lock_h := None\<rparr>)"
| "atender_pacientes t m A_fin s = None"

text \<open>
  One step of \<open>main\<close>: the header and \<open>input()\<close>, the thread objects, the doctors started
  in order, the pause of 0.3 s, the director started, then the joins (the director first)
  and the summary, which prints \<open>len(registro)\<close> and \<open>apertura_hospital.is_set()\<close>.
\<close>

fun h_main_paso :: "h_main \<Rightarrow> hospital \<Rightarrow> (h_main \<times> hospital) option" where
  "h_main_paso P_inicio s = Some (P_input, s\<lparr>salida_h := salida_h s @ [H_encabezado]\<rparr>)"
| "h_main_paso P_input s =
     (case stdin_h s of
        [] \<Rightarrow> Some (P_error EOFError, s)
      | l # ls \<Rightarrow> Some (P_crear, s\<lparr>stdin_h := ls\<rparr>))"
| "h_main_paso P_crear s =
     Some (P_start 0,
           s\<lparr>hilo_director := D_creado, hilos_medicos := map (\<lambda>m. (m, A_creado)) MEDICOS\<rparr>)"
| "h_main_paso (P_start k) s =
     (if k < length (hilos_medicos s)
      then (if snd (hilos_medicos s ! k) = A_creado
            then Some (P_start (Suc k),
                       s\<lparr>hilos_medicos :=
                            (hilos_medicos s)[k := (fst (hilos_medicos s ! k), A_esperando)]\<rparr>)
            else Some (P_error RuntimeError, s))
      else Some (P_sleep, s))"
| "h_main_paso P_sleep s = Some (P_start_director, s)"
| "h_main_paso P_start_director s =
     (if hilo_director s = D_creado
      then Some (P_join_director, s\<lparr>hilo_director := D_revisando\<rparr>)
      else Some (P_error RuntimeError, s))"
| "h_main_paso P_join_director s =
     (if hilo_director s = D_fin then Some (P_join 0, s) else None)"
| "h_main_paso (P_join k) s =
     (if k < length (hilos_medicos s)
      then (if snd (hilos_medicos s ! k) = A_fin then Some (P_join (Suc k), s) else None)
      else Some (P_resumen, s))"
| "h_main_paso P_resumen s =
     Some (P_fin,
           s\<lparr>salida_h := salida_h s @ [H_resumen (length (registro s)) (apertura_hospital s)]\<rparr>)"
| "h_main_paso P_fin s = None"
| "h_main_paso (P_error e) s = None"

definition h_paso :: "h_actor \<Rightarrow> hospital \<Rightarrow> hospital option" where
  "h_paso a s =
     (case a of
        H_principal \<Rightarrow>
          (case h_main_paso (principal_h s) s of
             None \<Rightarrow> None
           | Some (pc', s') \<Rightarrow> Some (s'\<lparr>principal_h := pc'\<rparr>))
      | H_director \<Rightarrow>
          (case director (hilo_director s) s of
             None \<Rightarrow> None
           | Some (pc', s') \<Rightarrow> Some (s'\<lparr>hilo_director := pc'\<rparr>))
      | H_medico t \<Rightarrow>
          (if t < length (hilos_medicos s)
           then (case atender_pacientes t (fst (hilos_medicos s ! t))
                        (snd (hilos_medicos s ! t)) s of
                   None \<Rightarrow> None
                 | Some (pc', s') \<Rightarrow>
                     Some (s'\<lparr>hilos_medicos :=
                                 (hilos_medicos s')[t := (fst (hilos_medicos s ! t), pc')]\<rparr>))
           else None))"

text \<open>
  The module is loaded with the event cleared, the lock free and \<open>registro\<close> empty; no
  thread object exists yet.
\<close>

definition h_inicial :: "string list \<Rightarrow> hospital" where
  "h_inicial entrada =
     \<lparr>apertura_hospital = False, lock_h = None, registro = [], hilos_medicos = [],
      hilo_director = D_creado, principal_h = P_inicio, stdin_h = entrada, salida_h = []\<rparr>"

inductive h_alcanzable :: "string list \<Rightarrow> hospital \<Rightarrow> bool" for entrada :: "string list" where
  h_inicio: "h_alcanzable entrada (h_inicial entrada)"
| h_avance: "h_alcanzable entrada s \<Longrightarrow> h_paso a s = Some s' \<Longrightarrow> h_alcanzable entrada s'"

fun h_ejecutar :: "h_actor list \<Rightarrow> hospital \<Rightarrow> hospital option" where
  "h_ejecutar [] s = Some s"
| "h_ejecutar (a # as) s =
     (case h_paso a s of None \<Rightarrow> None | Some s' \<Rightarrow> h_ejecutar as s')"

text \<open>A doctor that has returned from \<open>apertura_hospital.wait()\<close>.\<close>

fun paso_la_espera :: "atender_pc \<Rightarrow> bool" where
  "paso_la_espera A_creado = False"
| "paso_la_espera A_esperando = False"
| "paso_la_espera A_wait = False"
| "paso_la_espera pc = True"

text \<open>
  A schedule of the hospital: the doctors reach their wait, the director opens, the doctors
  then work one after the other.
\<close>

definition h_plan :: "h_actor list" where
  "h_plan =
     replicate 8 H_principal
     @ [H_medico 0, H_medico 1, H_medico 2, H_medico 3]
     @ [H_principal, H_principal]
     @ replicate 3 H_director
     @ concat (replicate 2 [H_medico 2, H_medico 0, H_medico 3, H_medico 1])
     @ concat (replicate 3 (concat (map (\<lambda>t. replicate 4 (H_medico t)) [2, 0, 3, 1])))
     @ [H_medico 0, H_medico 1, H_medico 2, H_medico 3]
     @ replicate 7 H_principal"

subsection \<open>Invariants of the race\<close>

fun en_critica :: "correr_pc \<Rightarrow> bool" where
  "en_critica C_posicion = True"
| "en_critica (C_append p) = True"
| "en_critica (C_print p) = True"
| "en_critica C_release = True"
| "en_critica pc = False"

fun anotado :: "correr_pc \<Rightarrow> bool" where
  "anotado (C_print p) = True"
| "anotado C_release = True"
| "anotado C_fin = True"
| "anotado pc = False"

definition aporte :: "string \<times> correr_pc \<Rightarrow> string multiset" where
  "aporte h = (if anotado (snd h) then {#fst h#} else {#})"

definition c_inv_mutex :: "carrera \<Rightarrow> bool" where
  "c_inv_mutex s \<longleftrightarrow>
     (\<forall>i<length (hilos s). en_critica (snd (hilos s ! i)) \<longleftrightarrow> lock s = Some i)
     \<and> (\<forall>i. lock s = Some i \<longrightarrow> i < length (hilos s))"

fun c_inv_local :: "(nat \<times> string) list \<Rightarrow> string list \<Rightarrow> string \<Rightarrow> correr_pc \<Rightarrow> bool" where
  "c_inv_local A L n (C_append p) = (p = length L + 1 \<and> A = enumerate 1 L)"
| "c_inv_local A L n (C_print p) = (A @ [(p, n)] = enumerate 1 L)"
| "c_inv_local A L n pc = (A = enumerate 1 L)"

definition c_inv_datos :: "carrera \<Rightarrow> bool" where
  "c_inv_datos s \<longleftrightarrow>
     mset (llegadas s) = sum_list (map aporte (hilos s))
     \<and> (case lock s of
          None \<Rightarrow> c_anuncios (salida s) = enumerate 1 (llegadas s)
        | Some i \<Rightarrow> c_inv_local (c_anuncios (salida s)) (llegadas s)
                      (fst (hilos s ! i)) (snd (hilos s ! i)))"

fun c_inv_pc :: "c_main \<Rightarrow> (string \<times> correr_pc) list \<Rightarrow> bool" where
  "c_inv_pc (M_crear k) hs = (length hs = k \<and> (\<forall>j<length hs. snd (hs ! j) = C_creado))"
| "c_inv_pc (M_start k) hs =
     (length hs = length CORREDORES \<and> k \<le> length hs \<and> (\<forall>j<length hs. k \<le> j \<longrightarrow> snd (hs ! j) = C_creado))"
| "c_inv_pc (M_join k) hs =
     (length hs = length CORREDORES \<and> k \<le> length hs \<and> (\<forall>j<k. snd (hs ! j) = C_fin))"
| "c_inv_pc M_resultados hs = (length hs = length CORREDORES \<and> (\<forall>j<length hs. snd (hs ! j) = C_fin))"
| "c_inv_pc M_fin hs = (length hs = length CORREDORES \<and> (\<forall>j<length hs. snd (hs ! j) = C_fin))"
| "c_inv_pc pc hs = (hs = [])"

definition c_inv_main :: "carrera \<Rightarrow> bool" where
  "c_inv_main s \<longleftrightarrow>
     map fst (hilos s) = take (length (hilos s)) CORREDORES
     \<and> length (hilos s) \<le> length CORREDORES
     \<and> c_inv_pc (principal s) (hilos s)"

definition c_inv :: "carrera \<Rightarrow> bool" where
  "c_inv s \<longleftrightarrow> c_inv_main s \<and> c_inv_mutex s \<and> c_inv_datos s"

subsection \<open>Invariants of the hospital\<close>

fun h_inv_pc :: "h_main \<Rightarrow> director_pc \<Rightarrow> (medico \<times> atender_pc) list \<Rightarrow> bool" where
  "h_inv_pc (P_start k) d hs =
     (d = D_creado \<and> length hs = length MEDICOS \<and> k \<le> length hs
      \<and> (\<forall>j<length hs. k \<le> j \<longrightarrow> snd (hs ! j) = A_creado))"
| "h_inv_pc P_sleep d hs = (d = D_creado \<and> length hs = length MEDICOS)"
| "h_inv_pc P_start_director d hs = (d = D_creado \<and> length hs = length MEDICOS)"
| "h_inv_pc P_join_director d hs = (length hs = length MEDICOS)"
| "h_inv_pc (P_join k) d hs =
     (d = D_fin \<and> length hs = length MEDICOS \<and> k \<le> length hs
      \<and> (\<forall>j<k. snd (hs ! j) = A_fin))"
| "h_inv_pc P_resumen d hs =
     (d = D_fin \<and> length hs = length MEDICOS \<and> (\<forall>j<length hs. snd (hs ! j) = A_fin))"
| "h_inv_pc P_fin d hs =
     (d = D_fin \<and> length hs = length MEDICOS \<and> (\<forall>j<length hs. snd (hs ! j) = A_fin))"
| "h_inv_pc pc d hs = (d = D_creado \<and> hs = [])"

definition h_inv_puerta :: "hospital \<Rightarrow> bool" where
  "h_inv_puerta s \<longleftrightarrow>
     (apertura_hospital s \<longleftrightarrow> hilo_director s = D_fin)
     \<and> (\<not> apertura_hospital s \<longrightarrow>
          registro s = [] \<and> (\<forall>j<length (hilos_medicos s). \<not> paso_la_espera (snd (hilos_medicos s ! j))))"

definition h_inv :: "hospital \<Rightarrow> bool" where
  "h_inv s \<longleftrightarrow>
     h_inv_pc (principal_h s) (hilo_director s) (hilos_medicos s) \<and> h_inv_puerta s"

text \<open>
  The holder of the lock is a doctor inside its critical section; the threads that
  \<open>main\<close> has started have left \<open>A_creado\<close>; \<open>main\<close> reads the line it waits for from the
  standard input it was given, and fails only when that input is exhausted.
\<close>

fun en_consulta :: "atender_pc \<Rightarrow> bool" where
  "en_consulta (A_append i) = True"
| "en_consulta (A_print i) = True"
| "en_consulta (A_release i) = True"
| "en_consulta pc = False"

definition h_inv_candado :: "hospital \<Rightarrow> bool" where
  "h_inv_candado s \<longleftrightarrow>
     (\<forall>t. lock_h s = Some t \<longrightarrow>
        t < length (hilos_medicos s) \<and> en_consulta (snd (hilos_medicos s ! t)))"

fun h_inv_arranque :: "h_main \<Rightarrow> director_pc \<Rightarrow> (medico \<times> atender_pc) list \<Rightarrow> bool" where
  "h_inv_arranque (P_start k) d hs = (\<forall>j<length hs. j < k \<longrightarrow> snd (hs ! j) \<noteq> A_creado)"
| "h_inv_arranque P_sleep d hs = (\<forall>j<length hs. snd (hs ! j) \<noteq> A_creado)"
| "h_inv_arranque P_start_director d hs = (\<forall>j<length hs. snd (hs ! j) \<noteq> A_creado)"
| "h_inv_arranque P_join_director d hs =
     (d \<noteq> D_creado \<and> (\<forall>j<length hs. snd (hs ! j) \<noteq> A_creado))"
| "h_inv_arranque (P_join k) d hs = (\<forall>j<length hs. snd (hs ! j) \<noteq> A_creado)"
| "h_inv_arranque pc d hs = True"

fun h_inv_entrada :: "string list \<Rightarrow> h_main \<Rightarrow> string list \<Rightarrow> bool" where
  "h_inv_entrada entrada P_inicio resto = (resto = entrada)"
| "h_inv_entrada entrada P_input resto = (resto = entrada)"
| "h_inv_entrada entrada (P_error e) resto = (entrada = [])"
| "h_inv_entrada entrada pc resto = (entrada \<noteq> [])"

definition h_inv_progreso :: "string list \<Rightarrow> hospital \<Rightarrow> bool" where
  "h_inv_progreso entrada s \<longleftrightarrow>
     h_inv_candado s
     \<and> h_inv_arranque (principal_h s) (hilo_director s) (hilos_medicos s)
     \<and> h_inv_entrada entrada (principal_h s) (stdin_h s)"

subsection \<open>Runs of the hospital\<close>

text \<open>
  The number of transitions of the gate in a run: the steps of the schedule that change the
  value of \<open>apertura_hospital\<close>.
\<close>

fun h_transiciones :: "h_actor list \<Rightarrow> hospital \<Rightarrow> nat option" where
  "h_transiciones [] s = Some 0"
| "h_transiciones (a # as) s =
     (case h_paso a s of
        None \<Rightarrow> None
      | Some s' \<Rightarrow>
          (case h_transiciones as s' of
             None \<Rightarrow> None
           | Some n \<Rightarrow> Some (if apertura_hospital s' = apertura_hospital s then n else Suc n)))"

text \<open>A run is complete in a state in which no actor can move.\<close>

definition h_bloqueado :: "hospital \<Rightarrow> bool" where
  "h_bloqueado s \<longleftrightarrow>
     h_paso H_principal s = None \<and> h_paso H_director s = None
     \<and> list_all (\<lambda>t. h_paso (H_medico t) s = None) [0..<length (hilos_medicos s)]"

text \<open>
  The number of steps that the actors can still make: every step of every actor makes it
  smaller, so it bounds the length of a run.
\<close>

fun pasos_medico :: "atender_pc \<Rightarrow> nat" where
  "pasos_medico A_creado = 16"
| "pasos_medico A_esperando = 16"
| "pasos_medico A_wait = 15"
| "pasos_medico A_senal = 14"
| "pasos_medico (A_consulta i) = 4 * (4 - i) + 1"
| "pasos_medico (A_append i) = 4 * (4 - Suc i) + 4"
| "pasos_medico (A_print i) = 4 * (4 - Suc i) + 3"
| "pasos_medico (A_release i) = 4 * (4 - Suc i) + 2"
| "pasos_medico A_fin = 0"

fun pasos_director :: "director_pc \<Rightarrow> nat" where
  "pasos_director D_creado = 3"
| "pasos_director D_revisando = 3"
| "pasos_director D_abierto = 2"
| "pasos_director D_set = 1"
| "pasos_director D_fin = 0"

fun pasos_main :: "h_main \<Rightarrow> nat \<Rightarrow> nat" where
  "pasos_main P_inicio n = 84"
| "pasos_main P_input n = 83"
| "pasos_main P_crear n = 82"
| "pasos_main (P_start k) n = 6 + n + (n - k)"
| "pasos_main P_sleep n = 5 + n"
| "pasos_main P_start_director n = 4 + n"
| "pasos_main P_join_director n = 3 + n"
| "pasos_main (P_join k) n = 2 + (n - k)"
| "pasos_main P_resumen n = 1"
| "pasos_main P_fin n = 0"
| "pasos_main (P_error e) n = 0"

definition h_medida :: "hospital \<Rightarrow> nat" where
  "h_medida s =
     pasos_main (principal_h s) (length (hilos_medicos s)) + pasos_director (hilo_director s)
     + sum_list (map (\<lambda>h. pasos_medico (snd h)) (hilos_medicos s))"

section \<open>Auxiliary facts about lists\<close>

lemma sum_list_map_update:
  fixes f :: "'a \<Rightarrow> 'b::comm_monoid_add"
  assumes "i < length xs"
  shows "sum_list (map f (xs[i := y])) + f (xs ! i) = sum_list (map f xs) + f y"
proof -
  have "xs = take i xs @ xs ! i # drop (Suc i) xs"
    using assms by (rule id_take_nth_drop)
  then have "sum_list (map f xs) = sum_list (map f (take i xs)) + (f (xs ! i) + sum_list (map f (drop (Suc i) xs)))"
    by (metis map_append list.simps(9) sum_list.append sum_list.Cons)
  moreover have "sum_list (map f (xs[i := y])) = sum_list (map f (take i xs)) + (f y + sum_list (map f (drop (Suc i) xs)))"
    using assms by (simp add: upd_conv_take_nth_drop)
  ultimately show ?thesis
    by (simp add: ac_simps)
qed

section \<open>The runners' race: invariants and results\<close>

lemma c_anuncios_append: "c_anuncios (xs @ ys) = c_anuncios xs @ c_anuncios ys"
  by (induction xs rule: c_anuncios.induct) simp_all

lemma c_inv_inicial: "c_inv (c_inicial entrada)"
  by (simp add: c_inv_def c_inv_main_def c_inv_mutex_def c_inv_datos_def c_inicial_def)

lemma c_paso_trabajador:
  assumes "c_paso (Trabajador i) s = Some s'"
  obtains pc' t where "i < length (hilos s)"
    and "correr i (fst (hilos s ! i)) (snd (hilos s ! i)) s = Some (pc', t)"
    and "s' = t\<lparr>hilos := (hilos t)[i := (fst (hilos s ! i), pc')]\<rparr>"
  using assms by (auto simp: c_paso_def split: if_splits option.splits)

lemma c_paso_principal:
  assumes "c_paso Principal s = Some s'"
  obtains pc' t where "c_main_paso (principal s) s = Some (pc', t)"
    and "s' = t\<lparr>principal := pc'\<rparr>"
  using assms by (auto simp: c_paso_def split: option.splits)

lemma map_fst_update_snd: "map fst (hs[k := (fst (hs ! k), x)]) = map fst hs"
  by (induction hs arbitrary: k) (auto split: nat.splits)

lemma c_inv_pc_update:
  assumes "c_inv_pc m hs" and "i < length hs" and "snd (hs ! i) \<noteq> C_creado" and "snd (hs ! i) \<noteq> C_fin"
  shows "c_inv_pc m (hs[i := h])"
  using assms by (cases m) (auto simp: nth_list_update)

lemma correr_no_creado: "correr i n pc s = Some r \<Longrightarrow> pc \<noteq> C_creado \<and> pc \<noteq> C_fin"
  by (cases pc) auto

lemma correr_resto:
  "correr i n pc s = Some (pc', t) \<Longrightarrow> hilos t = hilos s \<and> principal t = principal s \<and> stdin t = stdin s"
  by (cases pc) (auto split: if_splits option.splits)

lemma c_inv_main_trabajador:
  assumes "c_paso (Trabajador i) s = Some s'" and "c_inv_main s"
  shows "c_inv_main s'"
proof -
  from assms(1) obtain pc' t where i: "i < length (hilos s)"
    and c: "correr i (fst (hilos s ! i)) (snd (hilos s ! i)) s = Some (pc', t)"
    and s': "s' = t\<lparr>hilos := (hilos t)[i := (fst (hilos s ! i), pc')]\<rparr>"
    by (rule c_paso_trabajador)
  from c have r: "hilos t = hilos s" "principal t = principal s"
    by (simp_all add: correr_resto)
  from c have n: "snd (hilos s ! i) \<noteq> C_creado" "snd (hilos s ! i) \<noteq> C_fin"
    by (simp_all add: correr_no_creado)
  have "map fst ((hilos s)[i := (fst (hilos s ! i), pc')]) = map fst (hilos s)"
    by (rule map_fst_update_snd)
  moreover have "c_inv_pc (principal s) ((hilos s)[i := (fst (hilos s ! i), pc')])"
    using assms(2) i n by (simp add: c_inv_main_def c_inv_pc_update)
  ultimately show ?thesis
    using assms(2) by (simp add: c_inv_main_def s' r)
qed

lemma c_inv_main_principal:
  assumes "c_paso Principal s = Some s'" and "c_inv_main s"
  shows "c_inv_main s'"
proof -
  from assms(1) obtain pc' t where c: "c_main_paso (principal s) s = Some (pc', t)"
    and s': "s' = t\<lparr>principal := pc'\<rparr>"
    by (rule c_paso_principal)
  show ?thesis
  proof (cases "principal s")
    case (M_crear k)
    with c s' assms(2) show ?thesis
      by (auto simp: c_inv_main_def nth_append take_Suc_conv_app_nth split: if_splits)
  next
    case (M_start k)
    with c s' assms(2) show ?thesis
      by (auto simp: c_inv_main_def nth_list_update map_fst_update_snd split: if_splits)
  next
    case (M_join k)
    with c s' assms(2) show ?thesis
      by (auto simp: c_inv_main_def less_Suc_eq split: if_splits)
  qed (use c s' assms(2) in \<open>auto simp: c_inv_main_def split: list.splits\<close>)
qed

lemma c_inv_mutex_trabajador:
  assumes "c_paso (Trabajador i) s = Some s'" and "c_inv_mutex s"
  shows "c_inv_mutex s'"
proof -
  from assms(1) obtain pc' t where i: "i < length (hilos s)"
    and c: "correr i (fst (hilos s ! i)) (snd (hilos s ! i)) s = Some (pc', t)"
    and s': "s' = t\<lparr>hilos := (hilos t)[i := (fst (hilos s ! i), pc')]\<rparr>"
    by (rule c_paso_trabajador)
  from assms(2) i have mi: "en_critica (snd (hilos s ! i)) \<longleftrightarrow> lock s = Some i"
    by (simp add: c_inv_mutex_def)
  show ?thesis
    using c s' i assms(2) mi
    by (cases "snd (hilos s ! i)")
       (auto simp: c_inv_mutex_def nth_list_update split: if_splits option.splits)
qed

lemma c_inv_mutex_principal:
  assumes "c_paso Principal s = Some s'" and "c_inv_mutex s" and "c_inv_main s"
  shows "c_inv_mutex s'"
proof -
  from assms(1) obtain pc' t where c: "c_main_paso (principal s) s = Some (pc', t)"
    and s': "s' = t\<lparr>principal := pc'\<rparr>"
    by (rule c_paso_principal)
  have mk: "en_critica (snd (hilos s ! k)) \<longleftrightarrow> lock s = Some k" if "k < length (hilos s)" for k
    using assms(2) that by (simp add: c_inv_mutex_def)
  show ?thesis
  proof (cases "principal s")
    case (M_start k)
    show ?thesis
    proof (cases "k < length (hilos s)")
      case True
      with M_start assms(3) have "snd (hilos s ! k) = C_creado"
        by (simp add: c_inv_main_def)
      with mk [OF True] have "lock s \<noteq> Some k"
        by simp
      with M_start c s' assms(2) True \<open>snd (hilos s ! k) = C_creado\<close> show ?thesis
        by (auto simp: c_inv_mutex_def nth_list_update split: if_splits)
    next
      case False
      with M_start c s' assms(2) show ?thesis
        by (auto simp: c_inv_mutex_def)
    qed
  qed (use c s' assms(2) in \<open>auto simp: c_inv_mutex_def nth_append less_Suc_eq
             split: if_splits list.splits\<close>)
qed

lemma aporte_simps [simp]:
  "aporte (n, C_creado) = {#}" "aporte (n, C_bucle k) = {#}" "aporte (n, C_posicion) = {#}"
  "aporte (n, C_append p) = {#}" "aporte (n, C_print p) = {#n#}" "aporte (n, C_release) = {#n#}"
  "aporte (n, C_fin) = {#n#}"
  by (simp_all add: aporte_def)

lemma c_inv_datos_trabajador:
  assumes "c_paso (Trabajador i) s = Some s'" and "c_inv_mutex s" and "c_inv_datos s"
  shows "c_inv_datos s'"
proof -
  obtain n pc where h: "hilos s ! i = (n, pc)"
    by (cases "hilos s ! i")
  from assms(1) obtain pc' t where i: "i < length (hilos s)"
    and c: "correr i n pc s = Some (pc', t)"
    and s': "s' = t\<lparr>hilos := (hilos t)[i := (n, pc')]\<rparr>"
    by (rule c_paso_trabajador) (simp add: h)
  have upd: "sum_list (map aporte ((hilos s)[i := (n, pc')])) + aporte (n, pc)
               = sum_list (map aporte (hilos s)) + aporte (n, pc')"
    using sum_list_map_update [OF i, of aporte "(n, pc')"] by (simp add: h)
  from assms(2) i h have mi: "en_critica pc \<longleftrightarrow> lock s = Some i"
    by (auto simp: c_inv_mutex_def)
  show ?thesis
  proof (cases pc)
    case C_creado with c show ?thesis by simp
  next
    case (C_bucle k)
    with c s' i assms(3) upd h mi show ?thesis
      by (auto simp: c_inv_datos_def c_anuncios_append nth_list_update split: if_splits option.splits)
  next
    case C_posicion
    with c s' i assms(3) upd h mi show ?thesis
      by (auto simp: c_inv_datos_def c_anuncios_append nth_list_update split: if_splits option.splits)
  next
    case (C_append p)
    with c s' i assms(3) upd h mi show ?thesis
      by (auto simp: c_inv_datos_def c_anuncios_append nth_list_update enumerate_append_eq split: if_splits option.splits)
  next
    case (C_print p)
    with c s' i assms(3) upd h mi show ?thesis
      by (auto simp: c_inv_datos_def c_anuncios_append nth_list_update split: if_splits option.splits)
  next
    case C_release
    with c s' i assms(3) upd h mi show ?thesis
      by (auto simp: c_inv_datos_def c_anuncios_append nth_list_update split: if_splits option.splits)
  next
    case C_fin with c show ?thesis by simp
  qed
qed

lemma c_anuncios_resultados:
  "c_anuncios (map (\<lambda>(i, nombre). L_resultado (Suc i) nombre) xs) = []"
  by (induction xs) auto

lemma c_inv_datos_principal:
  assumes "c_paso Principal s = Some s'" and "c_inv_mutex s" and "c_inv_datos s"
  shows "c_inv_datos s'"
proof -
  from assms(1) obtain pc' t where c: "c_main_paso (principal s) s = Some (pc', t)"
    and s': "s' = t\<lparr>principal := pc'\<rparr>"
    by (rule c_paso_principal)
  have mk: "en_critica (snd (hilos s ! k)) \<longleftrightarrow> lock s = Some k" if "k < length (hilos s)" for k
    using assms(2) that by (simp add: c_inv_mutex_def)
  have lk: "k < length (hilos s)" if "lock s = Some k" for k
    using assms(2) that by (simp add: c_inv_mutex_def)
  show ?thesis
  proof (cases "principal s")
    case (M_crear k)
    with c s' assms(3) lk show ?thesis
      by (auto simp: c_inv_datos_def nth_append c_anuncios_append split: if_splits option.splits)
  next
    case (M_start k)
    show ?thesis
    proof (cases "k < length (hilos s) \<and> snd (hilos s ! k) = C_creado")
      case True
      obtain n where h: "hilos s ! k = (n, C_creado)"
        using True by (cases "hilos s ! k") simp
      have upd: "sum_list (map aporte ((hilos s)[k := (n, C_bucle 0)])) + aporte (n, C_creado)
               = sum_list (map aporte (hilos s)) + aporte (n, C_bucle 0)"
        using sum_list_map_update [of k "hilos s" aporte "(n, C_bucle 0)"] True by (simp add: h)
      from mk [of k] True have "lock s \<noteq> Some k"
        by simp
      with M_start c s' assms(3) True h upd show ?thesis
        by (auto simp: c_inv_datos_def nth_list_update split: option.splits)
    next
      case False
      with M_start c s' assms(3) show ?thesis
        by (auto simp: c_inv_datos_def split: if_splits option.splits)
    qed
  qed (use c s' assms(3) in \<open>auto simp: c_inv_datos_def c_anuncios_append c_anuncios_resultados
             split: if_splits list.splits option.splits\<close>)
qed

lemma c_inv_paso:
  assumes "c_paso a s = Some s'" and "c_inv s"
  shows "c_inv s'"
proof (cases a)
  case Principal
  with assms show ?thesis
    by (simp add: c_inv_def c_inv_main_principal c_inv_mutex_principal c_inv_datos_principal)
next
  case (Trabajador i)
  with assms show ?thesis
    by (simp add: c_inv_def c_inv_main_trabajador c_inv_mutex_trabajador c_inv_datos_trabajador)
qed

lemma c_alcanzable_inv: "c_alcanzable entrada s \<Longrightarrow> c_inv s"
  by (induction rule: c_alcanzable.induct) (simp_all add: c_inv_inicial c_inv_paso)

lemma aporte_todos_fin:
  "\<forall>h\<in>set hs. snd h = C_fin \<Longrightarrow> sum_list (map aporte hs) = mset (map fst hs)"
  by (induction hs) (auto simp: aporte_def)

lemma CORREDORES_distinct: "distinct CORREDORES"
  by (simp add: CORREDORES_def emoji_persona_def i_acute_def)

text \<open>
  Claim C9.  Once \<open>main\<close> is past its join loop (it is about to print the results, or has
  printed them), and whatever the interleaving of the runners was: \<open>llegadas\<close> is a
  permutation of \<open>CORREDORES\<close> in which every runner appears exactly once, and the positions
  announced from inside the critical section (\<open>len(llegadas) + 1\<close> read just before the
  append) are \<open>1, 2, ..., len(CORREDORES)\<close>, each given to the runner at that place of
  \<open>llegadas\<close>.
\<close>

theorem llegadas_es_permutacion:
  assumes "c_alcanzable entrada s"
    and "principal s = M_resultados \<or> principal s = M_fin"
  shows "mset (llegadas s) = mset CORREDORES \<and> distinct (llegadas s)
         \<and> c_anuncios (salida s) = zip [1..<Suc (length CORREDORES)] (llegadas s)"
proof -
  from assms(1) have inv: "c_inv s"
    by (rule c_alcanzable_inv)
  from inv assms(2) have len: "length (hilos s) = length CORREDORES"
    and fin: "\<forall>j<length (hilos s). snd (hilos s ! j) = C_fin"
    by (auto simp: c_inv_def c_inv_main_def)
  from fin have fin': "\<forall>h\<in>set (hilos s). snd h = C_fin"
    by (metis in_set_conv_nth)
  from inv len have nombres: "map fst (hilos s) = CORREDORES"
    by (simp add: c_inv_def c_inv_main_def)
  from inv have "mset (llegadas s) = sum_list (map aporte (hilos s))"
    by (simp add: c_inv_def c_inv_datos_def)
  with fin' nombres have perm: "mset (llegadas s) = mset CORREDORES"
    by (simp add: aporte_todos_fin)
  then have dist: "distinct (llegadas s)"
    using CORREDORES_distinct mset_eq_imp_distinct_iff by blast
  have libre: "lock s = None"
  proof (cases "lock s")
    case (Some i)
    with inv have "i < length (hilos s)" and "en_critica (snd (hilos s ! i))"
      by (auto simp: c_inv_def c_inv_mutex_def)
    with fin show ?thesis by simp
  qed simp
  with inv have "c_anuncios (salida s) = enumerate 1 (llegadas s)"
    by (simp add: c_inv_def c_inv_datos_def)
  moreover from perm have "length (llegadas s) = length CORREDORES"
    by (rule mset_eq_length)
  ultimately have "c_anuncios (salida s) = zip [1..<Suc (length CORREDORES)] (llegadas s)"
    by (simp add: enumerate_eq_zip)
  with perm dist show ?thesis by simp
qed

lemma c_ejecutar_alcanzable:
  "c_ejecutar plan s = Some s' \<Longrightarrow> c_alcanzable entrada s \<Longrightarrow> c_alcanzable entrada s'"
  by (induction plan arbitrary: s) (auto split: option.splits intro: c_avance)

theorem llegadas_es_permutacion_witness:
  "map_option principal (c_ejecutar c_plan (c_inicial [''''])) = Some M_fin
   \<and> map_option (\<lambda>s. mset (llegadas s) = mset CORREDORES \<and> distinct (llegadas s)
          \<and> c_anuncios (salida s) = zip [1..<Suc (length CORREDORES)] (llegadas s))
        (c_ejecutar c_plan (c_inicial [''''])) = Some True"
proof -
  have pc: "map_option principal (c_ejecutar c_plan (c_inicial [''''])) = Some M_fin"
    by code_simp
  then obtain s where s: "c_ejecutar c_plan (c_inicial ['''']) = Some s" "principal s = M_fin"
    by auto
  from s(1) have "c_alcanzable [''''] s"
    using c_inicio by (rule c_ejecutar_alcanzable)
  from llegadas_es_permutacion [OF this] s(2)
  have "mset (llegadas s) = mset CORREDORES \<and> distinct (llegadas s)
          \<and> c_anuncios (salida s) = zip [1..<Suc (length CORREDORES)] (llegadas s)"
    by simp
  with s show ?thesis by simp
qed

section \<open>The hospital: invariants and results\<close>

lemma h_paso_medico:
  assumes "h_paso (H_medico t) s = Some s'"
  obtains pc' u where "t < length (hilos_medicos s)"
    and "atender_pacientes t (fst (hilos_medicos s ! t)) (snd (hilos_medicos s ! t)) s = Some (pc', u)"
    and "s' = u\<lparr>hilos_medicos := (hilos_medicos u)[t := (fst (hilos_medicos s ! t), pc')]\<rparr>"
  using assms by (auto simp: h_paso_def split: if_splits option.splits)

lemma h_paso_director:
  assumes "h_paso H_director s = Some s'"
  obtains pc' u where "director (hilo_director s) s = Some (pc', u)"
    and "s' = u\<lparr>hilo_director := pc'\<rparr>"
  using assms by (auto simp: h_paso_def split: option.splits)

lemma h_paso_principal:
  assumes "h_paso H_principal s = Some s'"
  obtains pc' u where "h_main_paso (principal_h s) s = Some (pc', u)"
    and "s' = u\<lparr>principal_h := pc'\<rparr>"
  using assms by (auto simp: h_paso_def split: option.splits)

lemma h_inv_inicial: "h_inv (h_inicial entrada)"
  by (simp add: h_inv_def h_inv_puerta_def h_inicial_def)

lemma h_inv_pc_update:
  assumes "h_inv_pc m d hs" and "t < length hs"
    and "snd (hs ! t) \<noteq> A_creado" and "snd (hs ! t) \<noteq> A_fin"
  shows "h_inv_pc m d (hs[t := h])"
  using assms by (cases m) (auto simp: nth_list_update)

lemma h_inv_medico:
  assumes "h_paso (H_medico t) s = Some s'" and "h_inv s"
  shows "h_inv s'"
proof -
  obtain m pc where h: "hilos_medicos s ! t = (m, pc)"
    by (cases "hilos_medicos s ! t")
  from assms(1) obtain pc' u where t: "t < length (hilos_medicos s)"
    and c: "atender_pacientes t m pc s = Some (pc', u)"
    and s': "s' = u\<lparr>hilos_medicos := (hilos_medicos u)[t := (m, pc')]\<rparr>"
    by (rule h_paso_medico) (simp add: h)
  from c have n: "pc \<noteq> A_creado" "pc \<noteq> A_fin"
    by (cases pc; simp)+
  from c have r: "hilos_medicos u = hilos_medicos s" "principal_h u = principal_h s"
    "hilo_director u = hilo_director s"
    by (cases pc; auto split: if_splits option.splits)+
  have "h_inv_pc (principal_h s) (hilo_director s) ((hilos_medicos s)[t := (m, pc')])"
    using assms(2) t n h by (simp add: h_inv_def h_inv_pc_update)
  moreover have "h_inv_puerta s'"
    using assms(2) c s' t h
    by (cases pc) (auto simp: h_inv_def h_inv_puerta_def nth_list_update split: if_splits option.splits)
  ultimately show ?thesis
    by (simp add: h_inv_def s' r)
qed

lemma h_inv_director:
  assumes "h_paso H_director s = Some s'" and "h_inv s"
  shows "h_inv s'"
proof -
  from assms(1) obtain pc' u where c: "director (hilo_director s) s = Some (pc', u)"
    and s': "s' = u\<lparr>hilo_director := pc'\<rparr>"
    by (rule h_paso_director)
  show ?thesis
    using c s' assms(2)
    by (cases "hilo_director s"; cases "principal_h s")
       (auto simp: h_inv_def h_inv_puerta_def)
qed

lemma h_inv_principal:
  assumes "h_paso H_principal s = Some s'" and "h_inv s"
  shows "h_inv s'"
proof -
  from assms(1) obtain pc' u where c: "h_main_paso (principal_h s) s = Some (pc', u)"
    and s': "s' = u\<lparr>principal_h := pc'\<rparr>"
    by (rule h_paso_principal)
  show ?thesis
    using c s' assms(2)
    by (cases "principal_h s")
       (auto simp: h_inv_def h_inv_puerta_def nth_list_update less_Suc_eq
             split: if_splits list.splits)
qed

lemma h_inv_paso:
  assumes "h_paso a s = Some s'" and "h_inv s"
  shows "h_inv s'"
  using assms by (cases a) (simp_all add: h_inv_principal h_inv_director h_inv_medico)

lemma h_alcanzable_inv: "h_alcanzable entrada s \<Longrightarrow> h_inv s"
  by (induction rule: h_alcanzable.induct) (simp_all add: h_inv_inicial h_inv_paso)

lemma h_ejecutar_alcanzable:
  "h_ejecutar plan s = Some s' \<Longrightarrow> h_alcanzable entrada s \<Longrightarrow> h_alcanzable entrada s'"
  by (induction plan arbitrary: s) (auto split: option.splits intro: h_avance)

lemma h_paso_puerta:
  assumes "h_paso a s = Some s'"
  shows "(apertura_hospital s \<longrightarrow> apertura_hospital s')
         \<and> (\<not> apertura_hospital s \<and> apertura_hospital s' \<longrightarrow> a = H_director \<and> hilo_director s = D_set)"
proof (cases a)
  case H_principal
  with assms obtain pc' u where c: "h_main_paso (principal_h s) s = Some (pc', u)"
    and s': "s' = u\<lparr>principal_h := pc'\<rparr>"
    by (auto elim: h_paso_principal)
  then show ?thesis
    by (cases "principal_h s") (auto split: if_splits list.splits)
next
  case H_director
  with assms obtain pc' u where c: "director (hilo_director s) s = Some (pc', u)"
    and s': "s' = u\<lparr>hilo_director := pc'\<rparr>"
    by (auto elim: h_paso_director)
  with H_director show ?thesis
    by (cases "hilo_director s") auto
next
  case (H_medico t)
  with assms obtain pc' u where
    c: "atender_pacientes t (fst (hilos_medicos s ! t)) (snd (hilos_medicos s ! t)) s = Some (pc', u)"
    and s': "s' = u\<lparr>hilos_medicos := (hilos_medicos u)[t := (fst (hilos_medicos s ! t), pc')]\<rparr>"
    by (auto elim: h_paso_medico)
  then show ?thesis
    by (cases "snd (hilos_medicos s ! t)") (auto split: if_splits option.splits)
qed

lemma h_inv_progreso_inicial: "h_inv_progreso entrada (h_inicial entrada)"
  by (simp add: h_inv_progreso_def h_inv_candado_def h_inicial_def)

lemma h_inv_arranque_update:
  assumes "h_inv_arranque m d hs" and "snd h \<noteq> A_creado"
  shows "h_inv_arranque m d (hs[t := h])"
proof (cases "t < length hs")
  case True
  with assms show ?thesis
    by (cases m) (auto simp: nth_list_update split: if_splits)
next
  case False
  then have "hs[t := h] = hs"
    by (intro list_update_beyond) simp
  with assms(1) show ?thesis
    by simp
qed

lemma h_progreso_medico:
  assumes "h_paso (H_medico t) s = Some s'" and "h_inv_progreso entrada s"
  shows "h_inv_progreso entrada s'"
proof -
  obtain m pc where h: "hilos_medicos s ! t = (m, pc)"
    by (cases "hilos_medicos s ! t")
  from assms(1) obtain pc' u where t: "t < length (hilos_medicos s)"
    and c: "atender_pacientes t m pc s = Some (pc', u)"
    and s': "s' = u\<lparr>hilos_medicos := (hilos_medicos u)[t := (m, pc')]\<rparr>"
    by (rule h_paso_medico) (simp add: h)
  from c have n: "pc' \<noteq> A_creado"
    by (cases pc) (auto split: if_splits option.splits)
  from c have r: "hilos_medicos u = hilos_medicos s" "principal_h u = principal_h s"
    "hilo_director u = hilo_director s" "stdin_h u = stdin_h s"
    by (cases pc; auto split: if_splits option.splits)+
  have "h_inv_arranque (principal_h s) (hilo_director s) ((hilos_medicos s)[t := (m, pc')])"
    using assms(2) n by (simp add: h_inv_progreso_def h_inv_arranque_update)
  moreover have "h_inv_candado s'"
    using assms(2) c s' t h
    by (cases pc)
       (auto simp: h_inv_progreso_def h_inv_candado_def nth_list_update
             split: if_splits option.splits)
  ultimately show ?thesis
    using assms(2) by (simp add: h_inv_progreso_def s' r)
qed

lemma h_progreso_director:
  assumes "h_paso H_director s = Some s'" and "h_inv_progreso entrada s"
  shows "h_inv_progreso entrada s'"
proof -
  from assms(1) obtain pc' u where c: "director (hilo_director s) s = Some (pc', u)"
    and s': "s' = u\<lparr>hilo_director := pc'\<rparr>"
    by (rule h_paso_director)
  show ?thesis
    using c s' assms(2)
    by (cases "hilo_director s"; cases "principal_h s")
       (auto simp: h_inv_progreso_def h_inv_candado_def)
qed

lemma h_progreso_principal:
  assumes "h_paso H_principal s = Some s'" and "h_inv s" and "h_inv_progreso entrada s"
  shows "h_inv_progreso entrada s'"
proof -
  from assms(1) obtain pc' u where c: "h_main_paso (principal_h s) s = Some (pc', u)"
    and s': "s' = u\<lparr>principal_h := pc'\<rparr>"
    by (rule h_paso_principal)
  from assms(3) have lk: "t < length (hilos_medicos s) \<and> en_consulta (snd (hilos_medicos s ! t))"
    if "lock_h s = Some t" for t
    using that by (simp add: h_inv_progreso_def h_inv_candado_def)
  have "h_inv_candado s'"
  proof (cases "principal_h s")
    case P_crear
    with assms(2) have "hilos_medicos s = []"
      by (simp add: h_inv_def)
    with lk have "lock_h s = None"
      by (cases "lock_h s") auto
    with P_crear c s' show ?thesis
      by (auto simp: h_inv_candado_def)
  next
    case (P_start k)
    with c s' lk show ?thesis
      by (auto simp: h_inv_candado_def nth_list_update split: if_splits)
  qed (use c s' lk in \<open>auto simp: h_inv_candado_def split: if_splits list.splits\<close>)
  moreover have "h_inv_arranque (principal_h s') (hilo_director s') (hilos_medicos s')"
    using c s' assms(2,3)
    by (cases "principal_h s")
       (auto simp: h_inv_def h_inv_progreso_def nth_list_update less_Suc_eq
             split: if_splits list.splits)
  moreover have "h_inv_entrada entrada (principal_h s') (stdin_h s')"
    using c s' assms(2,3)
    by (cases "principal_h s")
       (auto simp: h_inv_def h_inv_progreso_def split: if_splits list.splits)
  ultimately show ?thesis
    by (simp add: h_inv_progreso_def)
qed

lemma h_alcanzable_progreso: "h_alcanzable entrada s \<Longrightarrow> h_inv_progreso entrada s"
proof (induction rule: h_alcanzable.induct)
  case h_inicio
  show ?case by (rule h_inv_progreso_inicial)
next
  case (h_avance s a s')
  from h_avance(1) have "h_inv s"
    by (rule h_alcanzable_inv)
  with h_avance(2,3) show ?case
    by (cases a) (simp_all add: h_progreso_principal h_progreso_director h_progreso_medico)
qed

lemma h_alcanzable_ejecutar:
  "h_alcanzable entrada s \<Longrightarrow> \<exists>plan. h_ejecutar plan (h_inicial entrada) = Some s"
proof (induction rule: h_alcanzable.induct)
  case h_inicio
  have "h_ejecutar [] (h_inicial entrada) = Some (h_inicial entrada)"
    by simp
  then show ?case ..
next
  case (h_avance s a s')
  then obtain plan where p: "h_ejecutar plan (h_inicial entrada) = Some s"
    by auto
  have "h_ejecutar (xs @ [a]) t = Some s'" if "h_ejecutar xs t = Some s" for xs t
    using that h_avance(2) by (induction xs arbitrary: t) (auto split: option.splits)
  from this [OF p] show ?case ..
qed

lemma pasos_medico_paso:
  "atender_pacientes t m pc s = Some (pc', u) \<Longrightarrow> pasos_medico pc' < pasos_medico pc"
  by (cases pc) (auto simp: PACIENTES_POR_MEDICO_def split: if_splits option.splits)

lemma h_medida_paso:
  assumes "h_paso a s = Some s'"
  shows "h_medida s' < h_medida s"
proof (cases a)
  case H_principal
  with assms obtain pc' u where c: "h_main_paso (principal_h s) s = Some (pc', u)"
    and s': "s' = u\<lparr>principal_h := pc'\<rparr>"
    by (auto elim: h_paso_principal)
  show ?thesis
  proof (cases "principal_h s")
    case (P_start k)
    show ?thesis
    proof (cases "k < length (hilos_medicos s) \<and> snd (hilos_medicos s ! k) = A_creado")
      case True
      have "sum_list (map (\<lambda>h. pasos_medico (snd h))
                ((hilos_medicos s)[k := (fst (hilos_medicos s ! k), A_esperando)]))
              + pasos_medico (snd (hilos_medicos s ! k))
            = sum_list (map (\<lambda>h. pasos_medico (snd h)) (hilos_medicos s))
              + pasos_medico A_esperando"
        using sum_list_map_update [of k "hilos_medicos s" "\<lambda>h. pasos_medico (snd h)"
                "(fst (hilos_medicos s ! k), A_esperando)"] True
        by simp
      with P_start c s' True show ?thesis
        by (auto simp: h_medida_def)
    next
      case False
      with P_start c s' show ?thesis
        by (auto simp: h_medida_def split: if_splits)
    qed
  qed (use c s' in \<open>auto simp: h_medida_def MEDICOS_def comp_def split: if_splits list.splits\<close>)
next
  case H_director
  with assms obtain pc' u where c: "director (hilo_director s) s = Some (pc', u)"
    and s': "s' = u\<lparr>hilo_director := pc'\<rparr>"
    by (auto elim: h_paso_director)
  then show ?thesis
    by (cases "hilo_director s") (auto simp: h_medida_def)
next
  case (H_medico t)
  obtain m pc where h: "hilos_medicos s ! t = (m, pc)"
    by (cases "hilos_medicos s ! t")
  from assms H_medico obtain pc' u where t: "t < length (hilos_medicos s)"
    and c: "atender_pacientes t m pc s = Some (pc', u)"
    and s': "s' = u\<lparr>hilos_medicos := (hilos_medicos u)[t := (m, pc')]\<rparr>"
    by (auto elim: h_paso_medico simp: h)
  from c have r: "hilos_medicos u = hilos_medicos s" "principal_h u = principal_h s"
    "hilo_director u = hilo_director s"
    by (cases pc; auto split: if_splits option.splits)+
  have "sum_list (map (\<lambda>h. pasos_medico (snd h)) ((hilos_medicos s)[t := (m, pc')]))
          + pasos_medico pc
        = sum_list (map (\<lambda>h. pasos_medico (snd h)) (hilos_medicos s)) + pasos_medico pc'"
    using sum_list_map_update [OF t, of "\<lambda>h. pasos_medico (snd h)" "(m, pc')"]
    by (simp add: h)
  with pasos_medico_paso [OF c] show ?thesis
    by (simp add: h_medida_def s' r)
qed

lemma h_ejecutar_longitud:
  "h_ejecutar plan s = Some s' \<Longrightarrow> length plan + h_medida s' \<le> h_medida s"
proof (induction plan arbitrary: s)
  case Nil
  then show ?case by simp
next
  case (Cons a plan)
  then obtain t where t: "h_paso a s = Some t" "h_ejecutar plan t = Some s'"
    by (auto split: option.splits)
  from Cons.IH [OF t(2)] h_medida_paso [OF t(1)] show ?case
    by simp
qed

lemma h_transiciones_ejecutar:
  "h_ejecutar plan s = Some s' \<Longrightarrow>
     h_transiciones plan s = Some (if apertura_hospital s' \<and> \<not> apertura_hospital s then 1 else 0)
     \<and> (apertura_hospital s \<longrightarrow> apertura_hospital s')"
proof (induction plan arbitrary: s)
  case Nil
  then show ?case by auto
next
  case (Cons a plan)
  then obtain t where t: "h_paso a s = Some t" "h_ejecutar plan t = Some s'"
    by (auto split: option.splits)
  from h_paso_puerta [OF t(1)] have "apertura_hospital s \<longrightarrow> apertura_hospital t"
    by simp
  with Cons.IH [OF t(2)] t(1) show ?case
    by auto
qed

lemma h_bloqueado_iff: "h_bloqueado s \<longleftrightarrow> (\<forall>a. h_paso a s = None)"
proof
  assume b: "h_bloqueado s"
  show "\<forall>a. h_paso a s = None"
  proof
    fix a
    show "h_paso a s = None"
    proof (cases a)
      case (H_medico t)
      show ?thesis
      proof (cases "t < length (hilos_medicos s)")
        case True
        with b H_medico show ?thesis
          by (simp add: h_bloqueado_def list_all_iff)
      next
        case False
        with H_medico show ?thesis
          by (simp add: h_paso_def)
      qed
    qed (use b in \<open>simp_all add: h_bloqueado_def\<close>)
  qed
next
  assume "\<forall>a. h_paso a s = None"
  then show "h_bloqueado s"
    by (simp add: h_bloqueado_def list_all_iff)
qed

lemma h_medico_avanza:
  assumes "t < length (hilos_medicos s)" and "h_inv_candado s" and "apertura_hospital s"
    and "snd (hilos_medicos s ! t) \<noteq> A_creado" and "snd (hilos_medicos s ! t) \<noteq> A_fin"
  shows "\<exists>a. h_paso a s \<noteq> None"
proof (cases "\<exists>i. snd (hilos_medicos s ! t) = A_consulta i \<and> lock_h s \<noteq> None")
  case True
  then obtain u where u: "lock_h s = Some u"
    by auto
  with assms(2) have "u < length (hilos_medicos s)" "en_consulta (snd (hilos_medicos s ! u))"
    by (simp_all add: h_inv_candado_def)
  then have "h_paso (H_medico u) s \<noteq> None"
    by (cases "snd (hilos_medicos s ! u)") (simp_all add: h_paso_def)
  then show ?thesis ..
next
  case False
  with assms have "h_paso (H_medico t) s \<noteq> None"
    by (cases "snd (hilos_medicos s ! t)") (auto simp: h_paso_def split: option.splits)
  then show ?thesis ..
qed

lemma h_avanza:
  assumes "h_inv s" and "h_inv_progreso entrada s" and "entrada \<noteq> []"
    and "principal_h s \<noteq> P_fin"
  shows "\<exists>a. h_paso a s \<noteq> None"
proof (cases "h_paso H_principal s = None")
  case False
  then show ?thesis ..
next
  case True
  show ?thesis
  proof (cases "principal_h s")
    case P_join_director
    with True assms(2) have "h_paso H_director s \<noteq> None"
      by (cases "hilo_director s") (auto simp: h_paso_def h_inv_progreso_def split: if_splits)
    then show ?thesis ..
  next
    case (P_join k)
    with True have k: "k < length (hilos_medicos s)" "snd (hilos_medicos s ! k) \<noteq> A_fin"
      by (auto simp: h_paso_def split: if_splits)
    from P_join assms(1) have "apertura_hospital s"
      by (simp add: h_inv_def h_inv_puerta_def)
    moreover from P_join assms(2) k have "snd (hilos_medicos s ! k) \<noteq> A_creado"
      by (simp add: h_inv_progreso_def)
    moreover from assms(2) have "h_inv_candado s"
      by (simp add: h_inv_progreso_def)
    ultimately show ?thesis
      using k(1) h_medico_avanza [of k s] k(2) by blast
  qed (use True assms in \<open>auto simp: h_paso_def h_inv_progreso_def split: if_splits list.splits\<close>)
qed

text \<open>
  Claim C4, amended.  In every reachable state of the hospital, whatever the interleaving:
  the event \<open>apertura_hospital\<close> is set exactly when the director has executed its \<open>set()\<close>
  and finished; while it is clear, \<open>registro\<close> is empty and no doctor has returned from its
  \<open>wait()\<close>; no step clears the event, and the only step that sets it is the director's
  \<open>set()\<close>.  Every run that leads to the state has made at most one transition of the gate
  (one if the gate is open, none if it is closed) and has at most 87 steps.  When \<open>input()\<close>
  finds a line on the standard input, some actor can always move until \<open>main\<close> has ended, so a
  complete run ends with \<open>main\<close> finished and has made exactly one transition, from closed
  to open.  When the standard input is exhausted, \<open>input()\<close> raises \<open>EOFError\<close> before any
  thread exists and the gate stays closed: such a run makes no transition.
\<close>

theorem apertura_una_transicion:
  assumes "h_alcanzable entrada s"
  shows "(apertura_hospital s \<longleftrightarrow> hilo_director s = D_fin)
         \<and> (\<not> apertura_hospital s \<longrightarrow>
              registro s = [] \<and> list_all (\<lambda>h. \<not> paso_la_espera (snd h)) (hilos_medicos s))
         \<and> (\<forall>a s'. h_paso a s = Some s' \<longrightarrow>
               (apertura_hospital s \<longrightarrow> apertura_hospital s')
               \<and> (\<not> apertura_hospital s \<and> apertura_hospital s' \<longrightarrow>
                    a = H_director \<and> hilo_director s = D_set \<and> hilo_director s' = D_fin))
         \<and> (\<exists>plan. h_ejecutar plan (h_inicial entrada) = Some s)
         \<and> (\<forall>plan. h_ejecutar plan (h_inicial entrada) = Some s \<longrightarrow>
               h_transiciones plan (h_inicial entrada)
                 = Some (if apertura_hospital s then 1 else 0)
               \<and> length plan \<le> 87)
         \<and> (entrada \<noteq> [] \<and> principal_h s \<noteq> P_fin \<longrightarrow> \<not> h_bloqueado s)
         \<and> (entrada \<noteq> [] \<and> h_bloqueado s \<longrightarrow>
               principal_h s = P_fin \<and> apertura_hospital s
               \<and> (\<forall>plan. h_ejecutar plan (h_inicial entrada) = Some s \<longrightarrow>
                     h_transiciones plan (h_inicial entrada) = Some 1))
         \<and> (entrada = [] \<longrightarrow> \<not> apertura_hospital s \<and> hilos_medicos s = [])"
proof -
  from assms have inv: "h_inv s"
    by (rule h_alcanzable_inv)
  from assms have prog: "h_inv_progreso entrada s"
    by (rule h_alcanzable_progreso)
  from inv have puerta: "apertura_hospital s \<longleftrightarrow> hilo_director s = D_fin"
    by (simp add: h_inv_def h_inv_puerta_def)
  have cerrada: "registro s = [] \<and> list_all (\<lambda>h. \<not> paso_la_espera (snd h)) (hilos_medicos s)"
    if "\<not> apertura_hospital s"
    using inv that by (simp add: h_inv_def h_inv_puerta_def list_all_length)
  have pasos: "(apertura_hospital s \<longrightarrow> apertura_hospital s')
               \<and> (\<not> apertura_hospital s \<and> apertura_hospital s' \<longrightarrow>
                    a = H_director \<and> hilo_director s = D_set \<and> hilo_director s' = D_fin)"
    if p: "h_paso a s = Some s'" for a s'
  proof -
    from p inv have "h_inv s'"
      by (rule h_inv_paso)
    then have "apertura_hospital s' \<longleftrightarrow> hilo_director s' = D_fin"
      by (simp add: h_inv_def h_inv_puerta_def)
    with h_paso_puerta [OF p] show ?thesis
      by blast
  qed
  from assms have existe: "\<exists>plan. h_ejecutar plan (h_inicial entrada) = Some s"
    by (rule h_alcanzable_ejecutar)
  have corrida: "h_transiciones plan (h_inicial entrada)
                   = Some (if apertura_hospital s then 1 else 0) \<and> length plan \<le> 87"
    if p: "h_ejecutar plan (h_inicial entrada) = Some s" for plan
  proof -
    have "\<not> apertura_hospital (h_inicial entrada)"
      by (simp add: h_inicial_def)
    with h_transiciones_ejecutar [OF p]
    have "h_transiciones plan (h_inicial entrada) = Some (if apertura_hospital s then 1 else 0)"
      by simp
    moreover have "h_medida (h_inicial entrada) = 87"
      by (simp add: h_medida_def h_inicial_def)
    with h_ejecutar_longitud [OF p] have "length plan \<le> 87"
      by simp
    ultimately show ?thesis ..
  qed
  have avanza: "\<not> h_bloqueado s" if "entrada \<noteq> []" "principal_h s \<noteq> P_fin"
    using h_avanza [OF inv prog that] by (simp add: h_bloqueado_iff)
  have final: "apertura_hospital s" if "principal_h s = P_fin"
    using inv that by (auto simp: h_inv_def h_inv_puerta_def)
  have completa: "principal_h s = P_fin \<and> apertura_hospital s
                  \<and> (\<forall>plan. h_ejecutar plan (h_inicial entrada) = Some s \<longrightarrow>
                        h_transiciones plan (h_inicial entrada) = Some 1)"
    if "entrada \<noteq> []" "h_bloqueado s"
  proof -
    from that avanza have fin: "principal_h s = P_fin"
      by blast
    with final corrida show ?thesis
      by simp
  qed
  have eof: "\<not> apertura_hospital s \<and> hilos_medicos s = []" if "entrada = []"
  proof -
    from prog that have "principal_h s = P_inicio \<or> principal_h s = P_input
                         \<or> (\<exists>e. principal_h s = P_error e)"
      by (cases "principal_h s") (simp_all add: h_inv_progreso_def)
    with inv show ?thesis
      by (auto simp: h_inv_def h_inv_puerta_def)
  qed
  from puerta cerrada pasos existe corrida avanza completa eof show ?thesis
    by blast
qed

theorem apertura_una_transicion_witness:
  "map_option (\<lambda>s. \<not> apertura_hospital s \<and> hilo_director s = D_set \<and> registro s = []
                 \<and> list_all (\<lambda>h. \<not> paso_la_espera (snd h)) (hilos_medicos s)
                 \<and> \<not> h_bloqueado s)
     (h_ejecutar (take 16 h_plan) (h_inicial [''''])) = Some True
   \<and> h_transiciones (take 16 h_plan) (h_inicial ['''']) = Some 0
   \<and> map_option (\<lambda>s. principal_h s = P_fin \<and> h_bloqueado s \<and> apertura_hospital s
                     \<and> hilo_director s = D_fin)
       (h_ejecutar h_plan (h_inicial [''''])) = Some True
   \<and> h_transiciones h_plan (h_inicial ['''']) = Some 1
   \<and> length h_plan \<le> 87"
proof -
  have "map_option (\<lambda>s. \<not> apertura_hospital s \<and> hilo_director s = D_set
                       \<and> principal_h s \<noteq> P_fin)
          (h_ejecutar (take 16 h_plan) (h_inicial [''''])) = Some True"
    by code_simp
  then obtain s1 where s1: "h_ejecutar (take 16 h_plan) (h_inicial ['''']) = Some s1"
    "\<not> apertura_hospital s1" "hilo_director s1 = D_set" "principal_h s1 \<noteq> P_fin"
    by auto
  from s1(1) have "h_alcanzable [''''] s1"
    using h_inicio by (rule h_ejecutar_alcanzable)
  from apertura_una_transicion [OF this] s1
  have c1: "registro s1 = [] \<and> list_all (\<lambda>h. \<not> paso_la_espera (snd h)) (hilos_medicos s1)
            \<and> \<not> h_bloqueado s1
            \<and> h_transiciones (take 16 h_plan) (h_inicial ['''']) = Some 0"
    by simp
  have "map_option (\<lambda>s. principal_h s = P_fin \<and> h_bloqueado s)
          (h_ejecutar h_plan (h_inicial [''''])) = Some True"
    by code_simp
  then obtain s2 where s2: "h_ejecutar h_plan (h_inicial ['''']) = Some s2"
    "principal_h s2 = P_fin" "h_bloqueado s2"
    by auto
  from s2(1) have "h_alcanzable [''''] s2"
    using h_inicio by (rule h_ejecutar_alcanzable)
  from apertura_una_transicion [OF this] s2
  have c2: "apertura_hospital s2 \<and> hilo_director s2 = D_fin
            \<and> h_transiciones h_plan (h_inicial ['''']) = Some 1 \<and> length h_plan \<le> 87"
    by auto
  from s1 c1 s2 c2 show ?thesis
    by simp
qed

text \<open>
  With the standard input exhausted, the complete run of the hospital has two steps of
  \<open>main\<close>: the header, then \<open>input()\<close> raising \<open>EOFError\<close>.  No actor can move afterwards, no
  thread was created, and the gate has made no transition.
\<close>

theorem apertura_cero_transiciones_eof:
  "h_ejecutar [H_principal, H_principal] (h_inicial [])
     = Some \<lparr>apertura_hospital = False, lock_h = None, registro = [], hilos_medicos = [],
             hilo_director = D_creado, principal_h = P_error EOFError, stdin_h = [],
             salida_h = [H_encabezado]\<rparr>
   \<and> h_bloqueado \<lparr>apertura_hospital = False, lock_h = None, registro = [], hilos_medicos = [],
                  hilo_director = D_creado, principal_h = P_error EOFError, stdin_h = [],
                  salida_h = [H_encabezado]\<rparr>
   \<and> h_transiciones [H_principal, H_principal] (h_inicial []) = Some 0"
  by (simp add: h_paso_def h_inicial_def h_bloqueado_def)

end
